theory Spec2Isabelle
  imports Main
begin

section \<open>The completion registry of routes.js\<close>

text \<open>
  The module keeps two collections for the lifetime of the process:
  \<^verbatim>\<open>taskCompletions\<close>, a JavaScript \<^verbatim>\<open>Map\<close> from the lower-cased user
  address to the completion data, and \<^verbatim>\<open>usedTransactionHashes\<close>, a
  \<^verbatim>\<open>Set\<close> of strings. Both are only read with \<^verbatim>\<open>get\<close>, \<^verbatim>\<open>has\<close> and
  \<^verbatim>\<open>size\<close> and written with \<^verbatim>\<open>set\<close> and \<^verbatim>\<open>add\<close>, so the insertion
  order is never observed: the map is a partial function and the set a HOL set, and
  every handler takes the registry and returns it.

  Numbers are JavaScript doubles; timestamps and clock readings are integers far below
  \<open>2^53\<close>, where double arithmetic is exact, and are modelled as \<open>int\<close>. The
  clock \<^verbatim>\<open>Date.now()\<close> (milliseconds) is an argument of each handler that reads
  it; complete-task reads it for the timestamp check and again for
  \<^verbatim>\<open>completedAt\<close> in the same run of the handler, and the model takes the one
  reading for both and keeps \<^verbatim>\<open>completedAt\<close> as that reading, not as its ISO
  string. \<^verbatim>\<open>console.log\<close> and \<^verbatim>\<open>console.error\<close> are not modelled.
\<close>

subsection \<open>Data\<close>

record completion =
  timestamp :: int
  tx :: string
  completedAt :: int

record registry =
  taskCompletions :: "string \<rightharpoonup> completion"
  usedTransactionHashes :: "string set"

definition init :: registry where
  "init = \<lparr>taskCompletions = Map.empty, usedTransactionHashes = {}\<rparr>"

text \<open>
  The JSON body of a response: \<^verbatim>\<open>{status, error?, data: {timestamp, tx}}\<close>.
  A response is the HTTP status code with the body.
\<close>

record payload =
  status :: nat
  error :: "string option"
  data_timestamp :: int
  data_tx :: string

text \<open>
  The body of \<^verbatim>\<open>POST /complete-task\<close> after \<^verbatim>\<open>express.json()\<close>:
  \<^verbatim>\<open>userAddress\<close> a string, \<^verbatim>\<open>timestamp\<close> an integer number,
  \<^verbatim>\<open>tx\<close> a string or \<^verbatim>\<open>undefined\<close> (\<open>None\<close>).
\<close>

record body =
  userAddress :: string
  req_timestamp :: int
  req_tx :: "string option"

subsection \<open>Helper functions\<close>

definition isValidTimestamp :: "int \<Rightarrow> int \<Rightarrow> bool" where
  "isValidTimestamp clock ts =
     (let now = clock div 1000;
          oneYearAgo = now - (365 * 24 * 60 * 60)
      in ts \<ge> oneYearAgo \<and> ts \<le> now + 300)"

text \<open>
  \<^verbatim>\<open>tx || ""\<close> on a value that is a string or \<^verbatim>\<open>undefined\<close>: a string is truthy
  when it is not empty, \<^verbatim>\<open>undefined\<close> is falsy.
\<close>

fun or_empty :: "string option \<Rightarrow> string" where
  "or_empty None = []"
| "or_empty (Some h) = (if h \<noteq> [] then h else [])"

definition createSuccessResponse :: "int \<Rightarrow> string option \<Rightarrow> payload" where
  "createSuccessResponse ts t =
     \<lparr>status = 1, error = None, data_timestamp = ts, data_tx = or_empty t\<rparr>"

definition createIncompleteResponse :: payload where
  "createIncompleteResponse =
     \<lparr>status = 0, error = None, data_timestamp = 0, data_tx = []\<rparr>"

definition createErrorResponse :: "string \<Rightarrow> payload" where
  "createErrorResponse message =
     \<lparr>status = 0, error = Some message, data_timestamp = 0, data_tx = []\<rparr>"

subsection \<open>Validation middleware\<close>

text \<open>
  The character class \<^verbatim>\<open>[a-fA-F0-9]\<close> and the two patterns
  \<^verbatim>\<open>/^0x[a-fA-F0-9]{40}$/\<close> and \<^verbatim>\<open>/^0x[a-fA-F0-9]{64}$/\<close>. Without the \<^verbatim>\<open>m\<close> flag,
  \<^verbatim>\<open>$\<close> matches at the end of the input only.
\<close>

definition is_hex_digit :: "char \<Rightarrow> bool" where
  "is_hex_digit c = (c \<in> set ''abcdefABCDEF0123456789'')"

definition matches_0x_hex :: "nat \<Rightarrow> string \<Rightarrow> bool" where
  "matches_0x_hex n s =
     (take 2 s = ''0x'' \<and> length s = n + 2 \<and> list_all is_hex_digit (drop 2 s))"

text \<open>
  The validation chains run in the order they are listed and the handler reports the
  first message. \<^verbatim>\<open>optional()\<close> skips the chain of \<^verbatim>\<open>tx\<close> when the field is
  \<^verbatim>\<open>undefined\<close>. \<^verbatim>\<open>isInt({min: 1})\<close> tests the decimal string of the number:
  an integer prints as plain digits below \<open>10^21\<close> and in exponent notation, which
  the test refuses, from there on.
\<close>

definition validateTaskCompletion :: "body \<Rightarrow> string list" where
  "validateTaskCompletion b =
     (if matches_0x_hex 40 (userAddress b) then []
      else [''Invalid Ethereum address format'']) @
     (if req_timestamp b \<ge> 1 \<and> req_timestamp b < 10 ^ 21 then []
      else [''Timestamp must be a positive integer'']) @
     (case req_tx b of
        None \<Rightarrow> []
      | Some h \<Rightarrow> if matches_0x_hex 64 h then []
                  else [''Invalid transaction hash format''])"

definition validateAddressParam :: "string \<Rightarrow> string list" where
  "validateAddressParam a =
     (if matches_0x_hex 40 a then [] else [''Invalid Ethereum address format''])"

subsection \<open>String.prototype.toLowerCase\<close>

text \<open>
  On the ASCII range \<^verbatim>\<open>toLowerCase\<close> maps \<^verbatim>\<open>A\<close>..\<^verbatim>\<open>Z\<close> (65..90) to
  \<^verbatim>\<open>a\<close>..\<^verbatim>\<open>z\<close> and leaves every other character. Both handlers call it after the
  validation, on a string of ASCII characters.
\<close>

definition lower_char :: "char \<Rightarrow> char" where
  "lower_char c =
     (let n = (of_char c :: nat) in if 65 \<le> n \<and> n \<le> 90 then char_of (n + 32) else c)"

definition toLowerCase :: "string \<Rightarrow> string" where
  "toLowerCase s = map lower_char s"

subsection \<open>Routes\<close>

text \<open>
  \<^verbatim>\<open>POST /api/complete-task\<close>. The \<^verbatim>\<open>try\<close> block calls nothing that throws on a body
  of the types above, so the \<^verbatim>\<open>catch\<close> branch (500) is never taken. The guards
  \<^verbatim>\<open>tx && usedTransactionHashes.has(tx)\<close> and \<^verbatim>\<open>if (tx)\<close> are the cases on
  \<open>req_tx\<close>.
\<close>

definition complete_task :: "int \<Rightarrow> registry \<Rightarrow> body \<Rightarrow> registry \<times> nat \<times> payload" where
  "complete_task clock s b =
     (case validateTaskCompletion b of
        msg # _ \<Rightarrow> (s, 400, createErrorResponse msg)
      | [] \<Rightarrow>
         (let normalizedAddress = toLowerCase (userAddress b) in
          if \<not> isValidTimestamp clock (req_timestamp b) then
            (s, 400, createErrorResponse ''Invalid timestamp'')
          else if (case req_tx b of
                     None \<Rightarrow> False
                   | Some h \<Rightarrow> h \<noteq> [] \<and> h \<in> usedTransactionHashes s) then
            (s, 400, createErrorResponse ''Transaction hash already used'')
          else
            (case taskCompletions s normalizedAddress of
               Some existingCompletion \<Rightarrow>
                 (s, 200, createSuccessResponse (timestamp existingCompletion)
                            (Some (tx existingCompletion)))
             | None \<Rightarrow>
                 (let completionData =
                        \<lparr>timestamp = req_timestamp b, tx = or_empty (req_tx b),
                         completedAt = clock\<rparr>;
                      s1 = s\<lparr>taskCompletions :=
                                (taskCompletions s)(normalizedAddress \<mapsto> completionData)\<rparr>;
                      s2 = (case req_tx b of
                              None \<Rightarrow> s1
                            | Some h \<Rightarrow>
                                if h \<noteq> []
                                then s1\<lparr>usedTransactionHashes :=
                                          insert h (usedTransactionHashes s1)\<rparr>
                                else s1)
                  in (s2, 200, createSuccessResponse (req_timestamp b) (req_tx b))))))"

text \<open>\<^verbatim>\<open>GET /api/task-status/:userAddress\<close>: the path parameter is a string.\<close>

definition task_status :: "registry \<Rightarrow> string \<Rightarrow> registry \<times> nat \<times> payload" where
  "task_status s a =
     (case validateAddressParam a of
        msg # _ \<Rightarrow> (s, 400, createErrorResponse msg)
      | [] \<Rightarrow>
         (case taskCompletions s (toLowerCase a) of
            None \<Rightarrow> (s, 200, createIncompleteResponse)
          | Some completion \<Rightarrow>
              (s, 200, createSuccessResponse (timestamp completion) (Some (tx completion)))))"

text \<open>
  \<^verbatim>\<open>GET /api/health\<close> and \<^verbatim>\<open>GET /api/stats\<close> read the two sizes and the clock.
\<close>

record health_body =
  health_status :: string
  health_timestamp :: int
  completions :: nat
  transactions :: nat

record stats_body =
  totalCompletions :: nat
  totalTransactions :: nat
  stats_timestamp :: int

definition health :: "int \<Rightarrow> registry \<Rightarrow> registry \<times> health_body" where
  "health clock s =
     (s, \<lparr>health_status = ''healthy'', health_timestamp = clock div 1000,
          completions = card (dom (taskCompletions s)),
          transactions = card (usedTransactionHashes s)\<rparr>)"

definition stats :: "int \<Rightarrow> registry \<Rightarrow> registry \<times> stats_body" where
  "stats clock s =
     (s, \<lparr>totalCompletions = card (dom (taskCompletions s)),
          totalTransactions = card (usedTransactionHashes s),
          stats_timestamp = clock div 1000\<rparr>)"

subsection \<open>Sequences of requests\<close>

text \<open>
  Node runs each handler to completion before the next one starts, so the registry after
  a sequence of requests is the handlers applied one after the other. A request carries
  the clock reading of its handler. A request that the rate limiter of server.js refuses
  reaches no handler and is not in the sequence.
\<close>

datatype request =
    CompleteTask int body
  | TaskStatus string
  | Health int
  | Stats int

fun route :: "registry \<Rightarrow> request \<Rightarrow> registry" where
  "route s (CompleteTask clock b) = fst (complete_task clock s b)"
| "route s (TaskStatus a) = fst (task_status s a)"
| "route s (Health clock) = fst (health clock s)"
| "route s (Stats clock) = fst (stats clock s)"

fun run :: "registry \<Rightarrow> request list \<Rightarrow> registry" where
  "run s [] = s"
| "run s (q # qs) = run (route s q) qs"

subsection \<open>Predicates of the specification\<close>

text \<open>
  A transaction hash is fresh for a registry when the call supplies none or the supplied
  one is not in the consumed set.
\<close>

fun tx_unused :: "registry \<Rightarrow> string option \<Rightarrow> bool" where
  "tx_unused s None = True"
| "tx_unused s (Some h) = (h \<notin> usedTransactionHashes s)"

text \<open>Every key of the completion map is a lower-cased string.\<close>

definition keys_normalized :: "registry \<Rightarrow> bool" where
  "keys_normalized s = (\<forall>k. taskCompletions s k \<noteq> None \<longrightarrow> toLowerCase k = k)"

text \<open>
  Two strings differ only in letter case: they have the same length and, position by
  position, the same character or the two cases of one ASCII letter.
\<close>

definition letter_cases :: "(char \<times> char) list" where
  "letter_cases = zip ''ABCDEFGHIJKLMNOPQRSTUVWXYZ'' ''abcdefghijklmnopqrstuvwxyz''"

definition case_variant :: "char \<Rightarrow> char \<Rightarrow> bool" where
  "case_variant c d = (c = d \<or> (c, d) \<in> set letter_cases \<or> (d, c) \<in> set letter_cases)"

definition differ_only_in_case :: "string \<Rightarrow> string \<Rightarrow> bool" where
  "differ_only_in_case a b = list_all2 case_variant a b"

subsection \<open>Sample requests\<close>

text \<open>
  Two addresses in mixed case with their lower-cased forms, and transaction hashes, for
  the concrete runs below.
\<close>

abbreviation addrA :: string where
  "addrA \<equiv> ''0x742d35Cc6535C9c80B5D7a8f1C8cd55c26A0f123''"
abbreviation addrA_lower :: string where
  "addrA_lower \<equiv> ''0x742d35cc6535c9c80b5d7a8f1c8cd55c26a0f123''"
abbreviation addrB :: string where
  "addrB \<equiv> ''0x52908400098527886E0F7030069857D2E4169EE7''"
abbreviation addrB_lower :: string where
  "addrB_lower \<equiv> ''0x52908400098527886e0f7030069857d2e4169ee7''"
abbreviation hashH1 :: string where
  "hashH1 \<equiv> ''0x6539cac36a07f9c3d58ca0a4884c09ad05707f9d247fed3fb6853d1a86466f15''"
abbreviation hashH1_upper :: string where
  "hashH1_upper \<equiv> ''0x6539CAC36A07F9C3D58CA0A4884C09AD05707F9D247FED3FB6853D1A86466F15''"
abbreviation hashH2 :: string where
  "hashH2 \<equiv> ''0x88df016429689c079f3b2f6ad39fa052532c56795b733da78a91ebe6a713944b''"

section \<open>Properties of the handlers\<close>

subsection \<open>Lower-casing\<close>

lemma lower_char_idem: "lower_char (lower_char c) = lower_char c"
  by (simp add: lower_char_def Let_def)

lemma toLowerCase_idem: "toLowerCase (toLowerCase s) = toLowerCase s"
  by (simp add: toLowerCase_def lower_char_idem)

lemma lower_upper:
  "map lower_char ''ABCDEFGHIJKLMNOPQRSTUVWXYZ'' = ''abcdefghijklmnopqrstuvwxyz''"
  by code_simp

lemma lower_lower:
  "map lower_char ''abcdefghijklmnopqrstuvwxyz'' = ''abcdefghijklmnopqrstuvwxyz''"
  by code_simp

lemma letter_cases_lower:
  "(c, d) \<in> set letter_cases \<Longrightarrow> lower_char c = d \<and> lower_char d = d"
  using lower_upper lower_lower unfolding letter_cases_def
  by auto

lemma case_variant_lower: "case_variant c d \<Longrightarrow> lower_char c = lower_char d"
  unfolding case_variant_def using letter_cases_lower by metis

lemma differ_only_in_case_lower:
  "differ_only_in_case a b \<Longrightarrow> toLowerCase a = toLowerCase b"
  unfolding differ_only_in_case_def toLowerCase_def
  by (induction a b rule: list_all2_induct) (simp_all add: case_variant_lower)

subsection \<open>The five outcomes of complete-task\<close>

text \<open>
  One lemma for each way through the handler: a validation message, a timestamp out of
  range, a consumed hash, an existing record, a new record.
\<close>

lemma valid_tx_nonempty:
  "validateTaskCompletion b = [] \<Longrightarrow> req_tx b = Some h \<Longrightarrow> h \<noteq> []"
  by (auto simp: validateTaskCompletion_def matches_0x_hex_def split: if_splits)

lemma complete_task_invalid:
  "validateTaskCompletion b = msg # ms \<Longrightarrow>
   complete_task clock s b = (s, 400, createErrorResponse msg)"
  by (simp add: complete_task_def)

lemma complete_task_bad_timestamp:
  "validateTaskCompletion b = [] \<Longrightarrow> \<not> isValidTimestamp clock (req_timestamp b) \<Longrightarrow>
   complete_task clock s b = (s, 400, createErrorResponse ''Invalid timestamp'')"
  by (simp add: complete_task_def)

lemma complete_task_used_hash:
  "validateTaskCompletion b = [] \<Longrightarrow> isValidTimestamp clock (req_timestamp b) \<Longrightarrow>
   req_tx b = Some h \<Longrightarrow> h \<in> usedTransactionHashes s \<Longrightarrow>
   complete_task clock s b = (s, 400, createErrorResponse ''Transaction hash already used'')"
  using valid_tx_nonempty[of b h] by (simp add: complete_task_def)

lemma tx_unused_guard:
  "tx_unused s t \<Longrightarrow>
   \<not> (case t of None \<Rightarrow> False | Some h \<Rightarrow> h \<noteq> [] \<and> h \<in> usedTransactionHashes s)"
  by (cases t) auto

lemma complete_task_existing:
  "validateTaskCompletion b = [] \<Longrightarrow> isValidTimestamp clock (req_timestamp b) \<Longrightarrow>
   tx_unused s (req_tx b) \<Longrightarrow> taskCompletions s (toLowerCase (userAddress b)) = Some r \<Longrightarrow>
   complete_task clock s b = (s, 200, createSuccessResponse (timestamp r) (Some (tx r)))"
  using tx_unused_guard[of s "req_tx b"] by (simp add: complete_task_def Let_def)

lemma complete_task_new:
  "complete_task clock s b =
     (s\<lparr>taskCompletions := (taskCompletions s)(toLowerCase (userAddress b) \<mapsto>
          \<lparr>timestamp = req_timestamp b, tx = or_empty (req_tx b), completedAt = clock\<rparr>),
        usedTransactionHashes := (case req_tx b of None \<Rightarrow> usedTransactionHashes s
                                  | Some h \<Rightarrow> insert h (usedTransactionHashes s))\<rparr>,
      200, createSuccessResponse (req_timestamp b) (req_tx b))"
  if "validateTaskCompletion b = []" and "isValidTimestamp clock (req_timestamp b)"
    and "tx_unused s (req_tx b)" and "taskCompletions s (toLowerCase (userAddress b)) = None"
proof (cases "req_tx b")
  case None
  then show ?thesis
    using that by (simp add: complete_task_def Let_def)
next
  case (Some h)
  with that have "h \<noteq> []" "h \<notin> usedTransactionHashes s"
    using valid_tx_nonempty[of b h] by simp_all
  with Some that show ?thesis
    by (simp add: complete_task_def Let_def)
qed

lemma or_empty_idem: "or_empty (Some (or_empty t)) = or_empty t"
  by (cases t) auto

lemma createSuccessResponse_or_empty:
  "createSuccessResponse ts (Some (or_empty t)) = createSuccessResponse ts t"
  by (simp add: createSuccessResponse_def or_empty_idem)

lemma complete_task_success:
  assumes "complete_task clock s b = (s', 200, p)"
  shows "validateTaskCompletion b = [] \<and> isValidTimestamp clock (req_timestamp b) \<and>
         tx_unused s (req_tx b)"
proof -
  have v: "validateTaskCompletion b = []"
    using assms by (cases "validateTaskCompletion b") (simp_all add: complete_task_def)
  have t: "isValidTimestamp clock (req_timestamp b)"
    using assms v by (auto simp: complete_task_def Let_def split: if_splits)
  have u: "tx_unused s (req_tx b)"
  proof (cases "req_tx b")
    case None
    then show ?thesis by simp
  next
    case (Some h)
    then show ?thesis
      using assms v t valid_tx_nonempty[OF v Some]
      by (auto simp: complete_task_def Let_def split: if_splits)
  qed
  from v t u show ?thesis by simp
qed

lemma complete_task_success_record:
  assumes "complete_task clock s b = (s', 200, p)"
  shows "\<exists>r. taskCompletions s' (toLowerCase (userAddress b)) = Some r \<and>
             p = createSuccessResponse (timestamp r) (Some (tx r))"
proof -
  note ok = complete_task_success[OF assms]
  show ?thesis
  proof (cases "taskCompletions s (toLowerCase (userAddress b))")
    case None
    from ok None have "complete_task clock s b =
     (s\<lparr>taskCompletions := (taskCompletions s)(toLowerCase (userAddress b) \<mapsto>
          \<lparr>timestamp = req_timestamp b, tx = or_empty (req_tx b), completedAt = clock\<rparr>),
        usedTransactionHashes := (case req_tx b of None \<Rightarrow> usedTransactionHashes s
                                  | Some h \<Rightarrow> insert h (usedTransactionHashes s))\<rparr>,
      200, createSuccessResponse (req_timestamp b) (req_tx b))"
      by (simp add: complete_task_new)
    with assms show ?thesis
      by (auto simp: createSuccessResponse_or_empty)
  next
    case (Some r)
    from ok Some have "complete_task clock s b =
        (s, 200, createSuccessResponse (timestamp r) (Some (tx r)))"
      by (simp add: complete_task_existing)
    with assms Some show ?thesis by auto
  qed
qed

subsection \<open>What every request keeps\<close>

lemma complete_task_keeps_record:
  assumes "taskCompletions s k = Some r"
  shows "taskCompletions (fst (complete_task clock s b)) k = Some r"
  using assms
  by (auto simp: complete_task_def Let_def split: list.splits option.splits)

lemma route_keeps_record:
  "taskCompletions s k = Some r \<Longrightarrow> taskCompletions (route s q) k = Some r"
  by (cases q)
     (simp_all add: complete_task_keeps_record task_status_def health_def stats_def
        split: list.splits option.splits)

lemma run_keeps_record:
  "taskCompletions s k = Some r \<Longrightarrow> taskCompletions (run s qs) k = Some r"
  by (induction qs arbitrary: s) (simp_all add: route_keeps_record)

lemma complete_task_keys_normalized:
  assumes "keys_normalized s"
  shows "keys_normalized (fst (complete_task clock s b))"
  using assms
  by (auto simp: keys_normalized_def complete_task_def Let_def toLowerCase_idem
        split: list.splits option.splits if_splits)

lemma route_keys_normalized:
  "keys_normalized s \<Longrightarrow> keys_normalized (route s q)"
  by (cases q)
     (simp_all add: complete_task_keys_normalized task_status_def health_def stats_def
        split: list.splits option.splits)

lemma run_keys_normalized:
  "keys_normalized s \<Longrightarrow> keys_normalized (run s qs)"
  by (induction qs arbitrary: s) (simp_all add: route_keys_normalized)

lemma complete_task_used_mono:
  "h \<in> usedTransactionHashes s \<Longrightarrow>
   h \<in> usedTransactionHashes (fst (complete_task clock s b))"
  by (auto simp: complete_task_def Let_def split: list.splits option.splits)

lemma route_used_mono:
  "h \<in> usedTransactionHashes s \<Longrightarrow> h \<in> usedTransactionHashes (route s q)"
  by (cases q)
     (simp_all add: complete_task_used_mono task_status_def health_def stats_def
        split: list.splits option.splits)

lemma run_used_mono:
  "h \<in> usedTransactionHashes s \<Longrightarrow> h \<in> usedTransactionHashes (run s qs)"
  by (induction qs arbitrary: s) (simp_all add: route_used_mono)

subsection \<open>Further facts about complete-task\<close>

lemma complete_task_consumes:
  assumes fresh: "taskCompletions s0 (toLowerCase (userAddress b)) = None"
    and first: "complete_task clock s0 b = (s1, 200, p1)"
    and supplied: "req_tx b = Some h"
  shows "h \<in> usedTransactionHashes s1"
proof -
  note ok = complete_task_success[OF first]
  from ok have "complete_task clock s0 b =
     (s0\<lparr>taskCompletions := (taskCompletions s0)(toLowerCase (userAddress b) \<mapsto>
          \<lparr>timestamp = req_timestamp b, tx = or_empty (req_tx b), completedAt = clock\<rparr>),
        usedTransactionHashes := (case req_tx b of None \<Rightarrow> usedTransactionHashes s0
                                  | Some h \<Rightarrow> insert h (usedTransactionHashes s0))\<rparr>,
      200, createSuccessResponse (req_timestamp b) (req_tx b))"
    using fresh by (simp add: complete_task_new)
  with first supplied show ?thesis by auto
qed

lemma complete_task_used_hash_any:
  assumes supplied: "req_tx b = Some h"
    and consumed: "h \<in> usedTransactionHashes s"
  shows "complete_task clock s b =
           (s, 400, createErrorResponse
              (case validateTaskCompletion b of
                 msg # _ \<Rightarrow> msg
               | [] \<Rightarrow> if isValidTimestamp clock (req_timestamp b)
                        then ''Transaction hash already used''
                        else ''Invalid timestamp''))"
proof (cases "validateTaskCompletion b")
  case Nil
  show ?thesis
  proof (cases "isValidTimestamp clock (req_timestamp b)")
    case True
    with Nil complete_task_used_hash[OF Nil True supplied consumed] show ?thesis by simp
  next
    case False
    with Nil complete_task_bad_timestamp[OF Nil False] show ?thesis by simp
  qed
next
  case (Cons msg ms)
  with complete_task_invalid[OF Cons] show ?thesis by simp
qed

lemma complete_task_other_keys:
  "k \<noteq> toLowerCase (userAddress b) \<Longrightarrow>
   taskCompletions (fst (complete_task clock s b)) k = taskCompletions s k"
  by (auto simp: complete_task_def Let_def split: list.splits option.splits)

lemma task_status_existing:
  "validateAddressParam a = [] \<Longrightarrow> taskCompletions s (toLowerCase a) = Some r \<Longrightarrow>
   task_status s a = (s, 200, createSuccessResponse (timestamp r) (Some (tx r)))"
  by (simp add: task_status_def)

lemma complete_task_depends:
  assumes "validateTaskCompletion b = validateTaskCompletion b'"
    and "toLowerCase (userAddress b) = toLowerCase (userAddress b')"
    and "req_timestamp b = req_timestamp b'"
    and "req_tx b = req_tx b'"
  shows "complete_task clock s b = complete_task clock s b'"
  unfolding complete_task_def Let_def assms ..

lemma isValidTimestamp_iff:
  "isValidTimestamp clock ts =
     (\<not> (ts < clock div 1000 - 365 * 86400 \<or> ts > clock div 1000 + 5 * 60))"
  by (auto simp: isValidTimestamp_def Let_def)

subsection \<open>Evaluating the sample requests\<close>

lemma matches_addrA: "matches_0x_hex 40 addrA"
  by (simp add: matches_0x_hex_def is_hex_digit_def)

lemma matches_addrA_lower: "matches_0x_hex 40 addrA_lower"
  by (simp add: matches_0x_hex_def is_hex_digit_def)

lemma matches_addrB: "matches_0x_hex 40 addrB"
  by (simp add: matches_0x_hex_def is_hex_digit_def)

lemma matches_hashH1: "matches_0x_hex 64 hashH1"
  by (simp add: matches_0x_hex_def is_hex_digit_def)

lemma matches_hashH1_upper: "matches_0x_hex 64 hashH1_upper"
  by (simp add: matches_0x_hex_def is_hex_digit_def)

lemma matches_hashH2: "matches_0x_hex 64 hashH2"
  by (simp add: matches_0x_hex_def is_hex_digit_def)

lemmas sample_matches =
  matches_addrA matches_addrA_lower matches_addrB
  matches_hashH1 matches_hashH1_upper matches_hashH2

lemma lower_addrA: "toLowerCase addrA = addrA_lower"
  by code_simp

lemma lower_addrB: "toLowerCase addrB = addrB_lower"
  by code_simp

lemma valid_samples:
  "1 \<le> ts \<Longrightarrow> ts < 10 ^ 21 \<Longrightarrow> validateTaskCompletion
     \<lparr>userAddress = addrA, req_timestamp = ts, req_tx = None\<rparr> = []"
  "1 \<le> ts \<Longrightarrow> ts < 10 ^ 21 \<Longrightarrow> validateTaskCompletion
     \<lparr>userAddress = addrA, req_timestamp = ts, req_tx = Some hashH1\<rparr> = []"
  "1 \<le> ts \<Longrightarrow> ts < 10 ^ 21 \<Longrightarrow> validateTaskCompletion
     \<lparr>userAddress = addrA, req_timestamp = ts, req_tx = Some hashH2\<rparr> = []"
  "1 \<le> ts \<Longrightarrow> ts < 10 ^ 21 \<Longrightarrow> validateTaskCompletion
     \<lparr>userAddress = addrB, req_timestamp = ts, req_tx = Some hashH1\<rparr> = []"
  "1 \<le> ts \<Longrightarrow> ts < 10 ^ 21 \<Longrightarrow> validateTaskCompletion
     \<lparr>userAddress = addrB, req_timestamp = ts, req_tx = Some hashH2\<rparr> = []"
  "1 \<le> ts \<Longrightarrow> ts < 10 ^ 21 \<Longrightarrow> validateTaskCompletion
     \<lparr>userAddress = addrB, req_timestamp = ts, req_tx = Some hashH1_upper\<rparr> = []"
  by (simp_all add: validateTaskCompletion_def sample_matches)

lemma first_A_H1:
  "complete_task 1715419000000 init
     \<lparr>userAddress = addrA, req_timestamp = 1715418615, req_tx = Some hashH1\<rparr> =
   (\<lparr>taskCompletions = [addrA_lower \<mapsto>
        \<lparr>timestamp = 1715418615, tx = hashH1, completedAt = 1715419000000\<rparr>],
      usedTransactionHashes = {hashH1}\<rparr>,
    200, createSuccessResponse 1715418615 (Some hashH1))"
proof -
  have "complete_task 1715419000000 init
     \<lparr>userAddress = addrA, req_timestamp = 1715418615, req_tx = Some hashH1\<rparr> =
     (init\<lparr>taskCompletions := (taskCompletions init)(toLowerCase addrA \<mapsto>
          \<lparr>timestamp = 1715418615, tx = or_empty (Some hashH1),
           completedAt = 1715419000000\<rparr>),
        usedTransactionHashes := insert hashH1 (usedTransactionHashes init)\<rparr>,
      200, createSuccessResponse 1715418615 (Some hashH1))"
    using complete_task_new[where b =
        "\<lparr>userAddress = addrA, req_timestamp = 1715418615, req_tx = Some hashH1\<rparr>"
        and clock = 1715419000000 and s = init]
    by (simp add: valid_samples isValidTimestamp_def init_def)
  then show ?thesis
    by (simp add: lower_addrA init_def)
qed

lemma first_A_no_tx:
  "complete_task 1715418000000 init
     \<lparr>userAddress = addrA, req_timestamp = 1715418000, req_tx = None\<rparr> =
   (\<lparr>taskCompletions = [addrA_lower \<mapsto>
        \<lparr>timestamp = 1715418000, tx = [], completedAt = 1715418000000\<rparr>],
      usedTransactionHashes = {}\<rparr>,
    200, createSuccessResponse 1715418000 None)"
  using complete_task_new[where b =
      "\<lparr>userAddress = addrA, req_timestamp = 1715418000, req_tx = None\<rparr>"
      and clock = 1715418000000 and s = init]
  by (simp add: valid_samples isValidTimestamp_def init_def lower_addrA)

lemma lower_addrA_lower: "toLowerCase addrA_lower = addrA_lower"
  by code_simp

lemma differ_addrA: "differ_only_in_case addrA addrA_lower"
  by code_simp

lemma differ_hashH1: "differ_only_in_case hashH1 hashH1_upper"
  by code_simp

section \<open>The claims\<close>

subsection \<open>C1: retrying after the first success\<close>

text \<open>
  C1. Once a complete-task call for an address has succeeded, then after any further
  requests every call for that address (in any letter case) with valid fields, a
  timestamp in range and a transaction hash that is absent or not in the consumed set
  succeeds, leaves the registry as it is and returns the payload of the first success,
  which carries the stored record's timestamp and hash. A retry of the same triple is
  such a call when the triple has no transaction hash.
\<close>

theorem C1_retry_after_success:
  assumes first: "complete_task clock1 s0 b1 = (s1, 200, p1)"
    and same: "toLowerCase (userAddress b2) = toLowerCase (userAddress b1)"
    and valid: "validateTaskCompletion b2 = []"
    and inrange: "isValidTimestamp clock2 (req_timestamp b2)"
    and unused: "tx_unused (run s1 qs) (req_tx b2)"
  shows "complete_task clock2 (run s1 qs) b2 = (run s1 qs, 200, p1) \<and>
         (\<exists>r. taskCompletions (run s1 qs) (toLowerCase (userAddress b2)) = Some r \<and>
              data_timestamp p1 = timestamp r \<and> data_tx p1 = tx r)"
proof -
  from complete_task_success_record[OF first] obtain r where
    r: "taskCompletions s1 (toLowerCase (userAddress b1)) = Some r"
    and p1: "p1 = createSuccessResponse (timestamp r) (Some (tx r))"
    by blast
  from r same have later: "taskCompletions (run s1 qs) (toLowerCase (userAddress b2)) = Some r"
    by (simp add: run_keeps_record)
  have "complete_task clock2 (run s1 qs) b2 = (run s1 qs, 200, p1)"
    using complete_task_existing[OF valid inrange unused later] p1 by simp
  moreover have "data_timestamp p1 = timestamp r \<and> data_tx p1 = tx r"
    using p1 by (simp add: createSuccessResponse_def)
  ultimately show ?thesis using later by simp
qed

text \<open>
  The theorem at a first call without a transaction hash, a status and a health request,
  and the same triple again a minute later.
\<close>

theorem C1_retry_after_success_witness:
  "complete_task 1715419000000 init
       \<lparr>userAddress = addrA, req_timestamp = 1715418615, req_tx = None\<rparr> =
     (\<lparr>taskCompletions = [addrA_lower \<mapsto>
          \<lparr>timestamp = 1715418615, tx = [], completedAt = 1715419000000\<rparr>],
        usedTransactionHashes = {}\<rparr>, 200, createSuccessResponse 1715418615 None) \<and>
   snd (complete_task 1715419060000
     (run \<lparr>taskCompletions = [addrA_lower \<mapsto>
          \<lparr>timestamp = 1715418615, tx = [], completedAt = 1715419000000\<rparr>],
        usedTransactionHashes = {}\<rparr> [TaskStatus addrA, Health 1715419030000])
     \<lparr>userAddress = addrA, req_timestamp = 1715418615, req_tx = None\<rparr>) =
     (200, createSuccessResponse 1715418615 None)"
proof -
  have first: "complete_task 1715419000000 init
       \<lparr>userAddress = addrA, req_timestamp = 1715418615, req_tx = None\<rparr> =
     (\<lparr>taskCompletions = [addrA_lower \<mapsto>
          \<lparr>timestamp = 1715418615, tx = [], completedAt = 1715419000000\<rparr>],
        usedTransactionHashes = {}\<rparr>, 200, createSuccessResponse 1715418615 None)"
    using complete_task_new[where b =
        "\<lparr>userAddress = addrA, req_timestamp = 1715418615, req_tx = None\<rparr>"
        and clock = 1715419000000 and s = init]
    by (simp add: valid_samples isValidTimestamp_def init_def lower_addrA)
  show ?thesis
    using first C1_retry_after_success[OF first, of
        "\<lparr>userAddress = addrA, req_timestamp = 1715418615, req_tx = None\<rparr>" 1715419060000
        "[TaskStatus addrA, Health 1715419030000]"]
    by (simp add: valid_samples isValidTimestamp_def)
qed

text \<open>
  C1 as written also promises success for a retry of a triple with a transaction hash.
  The first call consumes the hash, and the duplicate check comes before the lookup of
  the existing record: the retry is answered 400.
\<close>

theorem C1_retry_same_triple_rejected:
  "fst (snd (complete_task 1715419000000 init
       \<lparr>userAddress = addrA, req_timestamp = 1715418615, req_tx = Some hashH1\<rparr>)) = 200 \<and>
   snd (complete_task 1715419000000
          (fst (complete_task 1715419000000 init
             \<lparr>userAddress = addrA, req_timestamp = 1715418615, req_tx = Some hashH1\<rparr>))
          \<lparr>userAddress = addrA, req_timestamp = 1715418615, req_tx = Some hashH1\<rparr>) =
     (400, createErrorResponse ''Transaction hash already used'')"
proof -
  have "complete_task 1715419000000
          \<lparr>taskCompletions = [addrA_lower \<mapsto>
             \<lparr>timestamp = 1715418615, tx = hashH1, completedAt = 1715419000000\<rparr>],
           usedTransactionHashes = {hashH1}\<rparr>
          \<lparr>userAddress = addrA, req_timestamp = 1715418615, req_tx = Some hashH1\<rparr> =
        (\<lparr>taskCompletions = [addrA_lower \<mapsto>
             \<lparr>timestamp = 1715418615, tx = hashH1, completedAt = 1715419000000\<rparr>],
           usedTransactionHashes = {hashH1}\<rparr>, 400,
         createErrorResponse ''Transaction hash already used'')"
    by (rule complete_task_used_hash) (simp_all add: valid_samples isValidTimestamp_def)
  then show ?thesis by (simp add: first_A_H1)
qed

subsection \<open>C2: the duplicate check comes first\<close>

text \<open>
  C2. The duplicate check stands before the lookup of the existing record and after the
  validation and the timestamp check: a call with valid fields and a timestamp in range
  that supplies a transaction hash of the consumed set is answered 400 with the message
  of the duplicate check, whatever the completion map holds for the calling address. The
  registry is left as it is.
\<close>

theorem C2_duplicate_check_before_existing_record:
  assumes valid: "validateTaskCompletion b = []"
    and inrange: "isValidTimestamp clock (req_timestamp b)"
    and supplied: "req_tx b = Some h"
    and consumed: "h \<in> usedTransactionHashes s"
  shows "complete_task clock s b =
           (s, 400, createErrorResponse ''Transaction hash already used'')"
  using valid inrange supplied consumed by (rule complete_task_used_hash)

text \<open>
  The theorem at an address that has its own record: the second call of A, with the hash
  that A's record consumed.
\<close>

theorem C2_duplicate_check_before_existing_record_witness:
  "taskCompletions \<lparr>taskCompletions = [addrA_lower \<mapsto>
        \<lparr>timestamp = 1715418615, tx = hashH1, completedAt = 1715419000000\<rparr>],
      usedTransactionHashes = {hashH1}\<rparr> (toLowerCase addrA) =
     Some \<lparr>timestamp = 1715418615, tx = hashH1, completedAt = 1715419000000\<rparr> \<and>
   complete_task 1715419000000
     \<lparr>taskCompletions = [addrA_lower \<mapsto>
        \<lparr>timestamp = 1715418615, tx = hashH1, completedAt = 1715419000000\<rparr>],
      usedTransactionHashes = {hashH1}\<rparr>
     \<lparr>userAddress = addrA, req_timestamp = 1715418999, req_tx = Some hashH1\<rparr> =
   (\<lparr>taskCompletions = [addrA_lower \<mapsto>
        \<lparr>timestamp = 1715418615, tx = hashH1, completedAt = 1715419000000\<rparr>],
      usedTransactionHashes = {hashH1}\<rparr>, 400,
    createErrorResponse ''Transaction hash already used'')"
  using C2_duplicate_check_before_existing_record[of
      "\<lparr>userAddress = addrA, req_timestamp = 1715418999, req_tx = Some hashH1\<rparr>"
      1715419000000 hashH1
      "\<lparr>taskCompletions = [addrA_lower \<mapsto>
        \<lparr>timestamp = 1715418615, tx = hashH1, completedAt = 1715419000000\<rparr>],
      usedTransactionHashes = {hashH1}\<rparr>"]
  by (simp add: valid_samples isValidTimestamp_def lower_addrA)

text \<open>
  C2 as written promises the message of the duplicate check for every call with a
  consumed hash. A has its record and H1 is consumed; A calls with H1 and a timestamp six
  minutes ahead of the clock, and the timestamp check, which comes first, answers.
\<close>

theorem C2_out_of_range_timestamp_before_duplicate_check:
  "taskCompletions
     (fst (complete_task 1715419000000 init
        \<lparr>userAddress = addrA, req_timestamp = 1715418615, req_tx = Some hashH1\<rparr>))
     (toLowerCase addrA) =
     Some \<lparr>timestamp = 1715418615, tx = hashH1, completedAt = 1715419000000\<rparr> \<and>
   hashH1 \<in> usedTransactionHashes
     (fst (complete_task 1715419000000 init
        \<lparr>userAddress = addrA, req_timestamp = 1715418615, req_tx = Some hashH1\<rparr>)) \<and>
   snd (complete_task 1715419000000
          (fst (complete_task 1715419000000 init
             \<lparr>userAddress = addrA, req_timestamp = 1715418615, req_tx = Some hashH1\<rparr>))
          \<lparr>userAddress = addrA, req_timestamp = 1715419360, req_tx = Some hashH1\<rparr>) =
     (400, createErrorResponse ''Invalid timestamp'') \<and>
   createErrorResponse ''Invalid timestamp'' \<noteq>
     createErrorResponse ''Transaction hash already used''"
proof -
  have "complete_task 1715419000000
          \<lparr>taskCompletions = [addrA_lower \<mapsto>
             \<lparr>timestamp = 1715418615, tx = hashH1, completedAt = 1715419000000\<rparr>],
           usedTransactionHashes = {hashH1}\<rparr>
          \<lparr>userAddress = addrA, req_timestamp = 1715419360, req_tx = Some hashH1\<rparr> =
        (\<lparr>taskCompletions = [addrA_lower \<mapsto>
             \<lparr>timestamp = 1715418615, tx = hashH1, completedAt = 1715419000000\<rparr>],
           usedTransactionHashes = {hashH1}\<rparr>, 400,
         createErrorResponse ''Invalid timestamp'')"
    by (rule complete_task_bad_timestamp) (simp_all add: valid_samples isValidTimestamp_def)
  then show ?thesis
    by (simp add: first_A_H1 lower_addrA createErrorResponse_def)
qed

subsection \<open>C3: the second call returns the first record\<close>

text \<open>
  C3. When a call \<open>(a, ts1, tx1)\<close> succeeds for an address that had no record before
  it, the record of \<open>a\<close> holds \<open>ts1\<close> and \<open>tx1\<close> (the empty string when
  \<open>tx1\<close> was not supplied), and a second valid call \<open>(a, ts2, tx2)\<close> with
  \<open>ts2\<close> in range and \<open>tx2\<close> not consumed is answered 200 with \<open>ts1\<close> and
  \<open>tx1\<close> and leaves the registry, with that record, as it is.
\<close>

theorem C3_second_call_returns_first_record:
  assumes fresh: "taskCompletions s0 (toLowerCase a) = None"
    and first: "complete_task clock1 s0
                  \<lparr>userAddress = a, req_timestamp = ts1, req_tx = tx1\<rparr> = (s1, 200, p1)"
    and valid: "validateTaskCompletion
                  \<lparr>userAddress = a, req_timestamp = ts2, req_tx = tx2\<rparr> = []"
    and inrange: "isValidTimestamp clock2 ts2"
    and unused: "tx_unused s1 tx2"
  shows "complete_task clock2 s1 \<lparr>userAddress = a, req_timestamp = ts2, req_tx = tx2\<rparr> =
           (s1, 200, \<lparr>status = 1, error = None, data_timestamp = ts1,
                      data_tx = or_empty tx1\<rparr>) \<and>
         (\<exists>r. taskCompletions s1 (toLowerCase a) = Some r \<and>
              timestamp r = ts1 \<and> tx r = or_empty tx1)"
proof -
  let ?b1 = "\<lparr>userAddress = a, req_timestamp = ts1, req_tx = tx1\<rparr>"
  let ?b2 = "\<lparr>userAddress = a, req_timestamp = ts2, req_tx = tx2\<rparr>"
  let ?r = "\<lparr>timestamp = ts1, tx = or_empty tx1, completedAt = clock1\<rparr>"
  from complete_task_success[OF first]
  have ok: "validateTaskCompletion ?b1 = []" "isValidTimestamp clock1 (req_timestamp ?b1)"
    "tx_unused s0 (req_tx ?b1)"
    by simp_all
  have stored: "taskCompletions s1 (toLowerCase a) = Some ?r"
    using complete_task_new[OF ok] fresh first by auto
  have "complete_task clock2 s1 ?b2 =
          (s1, 200, createSuccessResponse (timestamp ?r) (Some (tx ?r)))"
    by (rule complete_task_existing) (simp_all add: valid inrange unused stored)
  then show ?thesis
    using stored by (simp add: createSuccessResponse_def or_empty_idem)
qed

text \<open>
  The theorem at the scenario of the specification: A registers with
  \<open>(1715418615, H1)\<close> and calls again with \<open>(1715418999, H2)\<close>.
\<close>

theorem C3_second_call_returns_first_record_witness:
  "complete_task 1715419000000 init
     \<lparr>userAddress = addrA, req_timestamp = 1715418615, req_tx = Some hashH1\<rparr> =
   (\<lparr>taskCompletions = [addrA_lower \<mapsto>
        \<lparr>timestamp = 1715418615, tx = hashH1, completedAt = 1715419000000\<rparr>],
      usedTransactionHashes = {hashH1}\<rparr>,
    200, createSuccessResponse 1715418615 (Some hashH1)) \<and>
   complete_task 1715419000000
     \<lparr>taskCompletions = [addrA_lower \<mapsto>
        \<lparr>timestamp = 1715418615, tx = hashH1, completedAt = 1715419000000\<rparr>],
      usedTransactionHashes = {hashH1}\<rparr>
     \<lparr>userAddress = addrA, req_timestamp = 1715418999, req_tx = Some hashH2\<rparr> =
   (\<lparr>taskCompletions = [addrA_lower \<mapsto>
        \<lparr>timestamp = 1715418615, tx = hashH1, completedAt = 1715419000000\<rparr>],
      usedTransactionHashes = {hashH1}\<rparr>, 200,
    \<lparr>status = 1, error = None, data_timestamp = 1715418615, data_tx = hashH1\<rparr>)"
  using first_A_H1
    C3_second_call_returns_first_record[OF _ first_A_H1, of 1715418999 "Some hashH2"
      1715419000000]
  by (simp add: valid_samples isValidTimestamp_def init_def)

text \<open>
  C3 as written asks only that the first of the two calls succeeds. A has registered
  \<open>1715418000\<close> without a hash; its call with \<open>(1715418615, H1)\<close> succeeds as a
  no-op, and the call with \<open>(1715418999, H2)\<close> after it returns \<open>1715418000\<close> and
  the empty hash, not \<open>1715418615\<close> and H1.
\<close>

theorem C3_first_call_on_existing_record:
  "complete_task 1715418000000 init
     \<lparr>userAddress = addrA, req_timestamp = 1715418000, req_tx = None\<rparr> =
   (\<lparr>taskCompletions = [addrA_lower \<mapsto>
        \<lparr>timestamp = 1715418000, tx = [], completedAt = 1715418000000\<rparr>],
      usedTransactionHashes = {}\<rparr>,
    200, createSuccessResponse 1715418000 None) \<and>
   complete_task 1715419000000
     \<lparr>taskCompletions = [addrA_lower \<mapsto>
        \<lparr>timestamp = 1715418000, tx = [], completedAt = 1715418000000\<rparr>],
      usedTransactionHashes = {}\<rparr>
     \<lparr>userAddress = addrA, req_timestamp = 1715418615, req_tx = Some hashH1\<rparr> =
   (\<lparr>taskCompletions = [addrA_lower \<mapsto>
        \<lparr>timestamp = 1715418000, tx = [], completedAt = 1715418000000\<rparr>],
      usedTransactionHashes = {}\<rparr>,
    200, \<lparr>status = 1, error = None, data_timestamp = 1715418000, data_tx = []\<rparr>) \<and>
   complete_task 1715419000000
     \<lparr>taskCompletions = [addrA_lower \<mapsto>
        \<lparr>timestamp = 1715418000, tx = [], completedAt = 1715418000000\<rparr>],
      usedTransactionHashes = {}\<rparr>
     \<lparr>userAddress = addrA, req_timestamp = 1715418999, req_tx = Some hashH2\<rparr> =
   (\<lparr>taskCompletions = [addrA_lower \<mapsto>
        \<lparr>timestamp = 1715418000, tx = [], completedAt = 1715418000000\<rparr>],
      usedTransactionHashes = {}\<rparr>,
    200, \<lparr>status = 1, error = None, data_timestamp = 1715418000, data_tx = []\<rparr>)"
proof -
  let ?s = "\<lparr>taskCompletions = [addrA_lower \<mapsto>
        \<lparr>timestamp = 1715418000, tx = [], completedAt = 1715418000000\<rparr>],
      usedTransactionHashes = {}\<rparr>"
  let ?r = "\<lparr>timestamp = 1715418000, tx = [], completedAt = 1715418000000\<rparr>"
  have inrange: "isValidTimestamp 1715419000000 1715418615"
    "isValidTimestamp 1715419000000 1715418999"
    by (simp_all add: isValidTimestamp_def)
  have one: "complete_task 1715419000000 ?s
      \<lparr>userAddress = addrA, req_timestamp = 1715418615, req_tx = Some hashH1\<rparr> =
      (?s, 200, createSuccessResponse (timestamp ?r) (Some (tx ?r)))"
    by (rule complete_task_existing) (simp_all add: valid_samples inrange lower_addrA)
  have two: "complete_task 1715419000000 ?s
      \<lparr>userAddress = addrA, req_timestamp = 1715418999, req_tx = Some hashH2\<rparr> =
      (?s, 200, createSuccessResponse (timestamp ?r) (Some (tx ?r)))"
    by (rule complete_task_existing) (simp_all add: valid_samples inrange lower_addrA)
  from one two first_A_no_tx show ?thesis
    by (simp add: createSuccessResponse_def)
qed

subsection \<open>C4: a consumed hash is rejected for every address\<close>

text \<open>
  C4. Once the call \<open>(a, ts1, h)\<close> has created the record of \<open>a\<close>, and so consumed
  \<open>h\<close>, then after any further requests every call \<open>(b, ts2, h)\<close> is answered 400
  and leaves the registry as it is: no record is created for \<open>b\<close> and the consumed
  set is not modified. The message is that of the duplicate check when the call passes
  the validation and \<open>ts2\<close> is in range; otherwise it is the message of the validation
  or of the timestamp check, which come first.
\<close>

theorem C4_consumed_hash_rejected_for_other_address:
  assumes fresh: "taskCompletions s0 (toLowerCase a) = None"
    and first: "complete_task clock1 s0
                  \<lparr>userAddress = a, req_timestamp = ts1, req_tx = Some h\<rparr> = (s1, 200, p1)"
  shows "complete_task clock2 (run s1 qs)
           \<lparr>userAddress = b, req_timestamp = ts2, req_tx = Some h\<rparr> =
         (run s1 qs, 400, createErrorResponse
            (case validateTaskCompletion
                    \<lparr>userAddress = b, req_timestamp = ts2, req_tx = Some h\<rparr> of
               msg # _ \<Rightarrow> msg
             | [] \<Rightarrow> if isValidTimestamp clock2 ts2
                      then ''Transaction hash already used''
                      else ''Invalid timestamp''))"
proof -
  have "h \<in> usedTransactionHashes s1"
    using complete_task_consumes[OF _ first] fresh by simp
  then have "h \<in> usedTransactionHashes (run s1 qs)"
    by (rule run_used_mono)
  from complete_task_used_hash_any[OF _ this,
      of "\<lparr>userAddress = b, req_timestamp = ts2, req_tx = Some h\<rparr>" clock2]
  show ?thesis by simp
qed

text \<open>
  The theorem at the scenario of the specification: B calls with the hash of A and a
  timestamp in range.
\<close>

theorem C4_consumed_hash_rejected_for_other_address_witness:
  "toLowerCase addrB \<noteq> toLowerCase addrA \<and>
   complete_task 1715419000000 init
     \<lparr>userAddress = addrA, req_timestamp = 1715418615, req_tx = Some hashH1\<rparr> =
   (\<lparr>taskCompletions = [addrA_lower \<mapsto>
        \<lparr>timestamp = 1715418615, tx = hashH1, completedAt = 1715419000000\<rparr>],
      usedTransactionHashes = {hashH1}\<rparr>,
    200, createSuccessResponse 1715418615 (Some hashH1)) \<and>
   complete_task 1715419000000
     (run \<lparr>taskCompletions = [addrA_lower \<mapsto>
             \<lparr>timestamp = 1715418615, tx = hashH1, completedAt = 1715419000000\<rparr>],
           usedTransactionHashes = {hashH1}\<rparr> [])
     \<lparr>userAddress = addrB, req_timestamp = 1715418700, req_tx = Some hashH1\<rparr> =
   (\<lparr>taskCompletions = [addrA_lower \<mapsto>
        \<lparr>timestamp = 1715418615, tx = hashH1, completedAt = 1715419000000\<rparr>],
      usedTransactionHashes = {hashH1}\<rparr>, 400,
    createErrorResponse ''Transaction hash already used'')"
  using first_A_H1
    C4_consumed_hash_rejected_for_other_address[where b = addrB and qs = "[]"
      and ?clock2.0 = 1715419000000 and ?ts2.0 = 1715418700, OF _ first_A_H1]
  by (simp add: valid_samples isValidTimestamp_def init_def lower_addrA lower_addrB)

text \<open>
  C4 as written promises the duplicate-hash error for any timestamp. With a timestamp six
  minutes ahead of the clock the call of B is refused by the timestamp check, before the
  consumed set is read.
\<close>

theorem C4_out_of_range_timestamp_not_duplicate_error:
  "fst (snd (complete_task 1715419000000 init
       \<lparr>userAddress = addrA, req_timestamp = 1715418615, req_tx = Some hashH1\<rparr>)) = 200 \<and>
   snd (complete_task 1715419000000
          (fst (complete_task 1715419000000 init
             \<lparr>userAddress = addrA, req_timestamp = 1715418615, req_tx = Some hashH1\<rparr>))
          \<lparr>userAddress = addrB, req_timestamp = 1715419360, req_tx = Some hashH1\<rparr>) =
     (400, createErrorResponse ''Invalid timestamp'')"
proof -
  have "complete_task 1715419000000
          \<lparr>taskCompletions = [addrA_lower \<mapsto>
             \<lparr>timestamp = 1715418615, tx = hashH1, completedAt = 1715419000000\<rparr>],
           usedTransactionHashes = {hashH1}\<rparr>
          \<lparr>userAddress = addrB, req_timestamp = 1715419360, req_tx = Some hashH1\<rparr> =
        (\<lparr>taskCompletions = [addrA_lower \<mapsto>
             \<lparr>timestamp = 1715418615, tx = hashH1, completedAt = 1715419000000\<rparr>],
           usedTransactionHashes = {hashH1}\<rparr>, 400,
         createErrorResponse ''Invalid timestamp'')"
    by (rule complete_task_bad_timestamp) (simp_all add: valid_samples isValidTimestamp_def)
  then show ?thesis by (simp add: first_A_H1)
qed

subsection \<open>C5: the timestamp window\<close>

text \<open>
  C5. With \<open>now\<close> the clock of the call in whole seconds, a call that passes the
  validation is answered with the timestamp error exactly when its timestamp is below
  \<open>now\<close> minus 365 days or above \<open>now\<close> plus 5 minutes. \<open>now\<close> minus 366 days
  fails the check, \<open>now\<close> plus 4 minutes passes it, \<open>now\<close> plus 6 minutes fails it.
\<close>

theorem C5_timestamp_bound:
  assumes valid: "validateTaskCompletion b = []"
  shows "(snd (complete_task clock s b) = (400, createErrorResponse ''Invalid timestamp'')) =
           (req_timestamp b < clock div 1000 - 365 * 86400 \<or>
            req_timestamp b > clock div 1000 + 5 * 60) \<and>
         \<not> isValidTimestamp clock (clock div 1000 - 366 * 86400) \<and>
         isValidTimestamp clock (clock div 1000 + 4 * 60) \<and>
         \<not> isValidTimestamp clock (clock div 1000 + 6 * 60)"
proof -
  have "(snd (complete_task clock s b) = (400, createErrorResponse ''Invalid timestamp'')) =
          (\<not> isValidTimestamp clock (req_timestamp b))"
    using valid
    by (auto simp: complete_task_def Let_def createErrorResponse_def createSuccessResponse_def
          split: option.splits)
  then show ?thesis
    by (simp add: isValidTimestamp_iff)
qed

text \<open>
  The theorem at a clock reading of 1715419000999 milliseconds.
\<close>

theorem C5_timestamp_bound_witness:
  "validateTaskCompletion
     \<lparr>userAddress = addrA, req_timestamp = 1715419000 + 6 * 60, req_tx = Some hashH1\<rparr> = [] \<and>
   snd (complete_task 1715419000999 init
     \<lparr>userAddress = addrA, req_timestamp = 1715419000 + 6 * 60, req_tx = Some hashH1\<rparr>) =
     (400, createErrorResponse ''Invalid timestamp'') \<and>
   \<not> isValidTimestamp 1715419000999 (1715419000 - 366 * 86400) \<and>
   isValidTimestamp 1715419000999 (1715419000 + 4 * 60) \<and>
   \<not> isValidTimestamp 1715419000999 (1715419000 + 6 * 60)"
  using C5_timestamp_bound[where b =
      "\<lparr>userAddress = addrA, req_timestamp = 1715419000 + 6 * 60, req_tx = Some hashH1\<rparr>"
      and s = init and clock = 1715419000999]
  by (simp add: valid_samples)

subsection \<open>C6: records are written once\<close>

text \<open>
  C6. In a registry whose keys are lower-cased addresses, as in the empty one, every
  sequence of requests keeps the keys lower-cased, so that no two keys are the same
  address in different letter case and an address has at most one record; and it keeps
  every record that is stored, with all its fields: an address that is completed stays
  completed with the record of its first write.
\<close>

theorem C6_records_are_never_changed:
  assumes inv: "keys_normalized s"
    and stored: "taskCompletions s k = Some r"
  shows "keys_normalized (run s qs) \<and>
         taskCompletions (run s qs) k = Some r \<and>
         (\<forall>k1 k2. taskCompletions (run s qs) k1 \<noteq> None \<and>
                  taskCompletions (run s qs) k2 \<noteq> None \<and>
                  toLowerCase k1 = toLowerCase k2 \<longrightarrow> k1 = k2)"
proof -
  have later: "keys_normalized (run s qs)"
    using inv by (rule run_keys_normalized)
  have kept: "taskCompletions (run s qs) k = Some r"
    using stored by (rule run_keeps_record)
  have "k1 = k2"
    if "taskCompletions (run s qs) k1 \<noteq> None" "taskCompletions (run s qs) k2 \<noteq> None"
      "toLowerCase k1 = toLowerCase k2" for k1 k2
  proof -
    from later that(1) have "k1 = toLowerCase k1"
      by (simp add: keys_normalized_def)
    also note that(3)
    also from later that(2) have "toLowerCase k2 = k2"
      by (simp add: keys_normalized_def)
    finally show ?thesis .
  qed
  with later kept show ?thesis by blast
qed

text \<open>
  The theorem at the registry after the first call of A and four requests: a second call
  of A with other data, a status request, a call of B and a stats request.
\<close>

theorem C6_records_are_never_changed_witness:
  "keys_normalized
     (run \<lparr>taskCompletions = [addrA_lower \<mapsto>
             \<lparr>timestamp = 1715418615, tx = hashH1, completedAt = 1715419000000\<rparr>],
           usedTransactionHashes = {hashH1}\<rparr>
        [CompleteTask 1715419000000
           \<lparr>userAddress = addrA, req_timestamp = 1715418999, req_tx = Some hashH2\<rparr>,
         TaskStatus addrA,
         CompleteTask 1715419000000
           \<lparr>userAddress = addrB, req_timestamp = 1715418700, req_tx = Some hashH2\<rparr>,
         Stats 1715419000000]) \<and>
   taskCompletions
     (run \<lparr>taskCompletions = [addrA_lower \<mapsto>
             \<lparr>timestamp = 1715418615, tx = hashH1, completedAt = 1715419000000\<rparr>],
           usedTransactionHashes = {hashH1}\<rparr>
        [CompleteTask 1715419000000
           \<lparr>userAddress = addrA, req_timestamp = 1715418999, req_tx = Some hashH2\<rparr>,
         TaskStatus addrA,
         CompleteTask 1715419000000
           \<lparr>userAddress = addrB, req_timestamp = 1715418700, req_tx = Some hashH2\<rparr>,
         Stats 1715419000000]) addrA_lower =
     Some \<lparr>timestamp = 1715418615, tx = hashH1, completedAt = 1715419000000\<rparr>"
proof -
  have inv: "keys_normalized \<lparr>taskCompletions = [addrA_lower \<mapsto>
             \<lparr>timestamp = 1715418615, tx = hashH1, completedAt = 1715419000000\<rparr>],
           usedTransactionHashes = {hashH1}\<rparr>"
    by (simp add: keys_normalized_def lower_addrA_lower)
  have stored: "taskCompletions \<lparr>taskCompletions = [addrA_lower \<mapsto>
             \<lparr>timestamp = 1715418615, tx = hashH1, completedAt = 1715419000000\<rparr>],
           usedTransactionHashes = {hashH1}\<rparr> addrA_lower =
         Some \<lparr>timestamp = 1715418615, tx = hashH1, completedAt = 1715419000000\<rparr>"
    by simp
  from C6_records_are_never_changed[OF inv stored] show ?thesis
    by blast
qed

subsection \<open>C7: an absent address is not an error\<close>

text \<open>
  C7. For a well-formed address without a record, the status request is answered 200 with
  status 0, no error field, timestamp 0 and the empty hash.
\<close>

theorem C7_status_of_absent_address:
  assumes valid: "validateAddressParam a = []"
    and absent: "taskCompletions s (toLowerCase a) = None"
  shows "task_status s a =
           (s, 200, \<lparr>status = 0, error = None, data_timestamp = 0, data_tx = []\<rparr>)"
  using valid absent by (simp add: task_status_def createIncompleteResponse_def)

text \<open>
  The theorem at the empty registry.
\<close>

theorem C7_status_of_absent_address_witness:
  "task_status init addrA =
     (init, 200, \<lparr>status = 0, error = None, data_timestamp = 0, data_tx = []\<rparr>)"
  using C7_status_of_absent_address[of addrA init]
  by (simp add: validateAddressParam_def sample_matches init_def)

subsection \<open>C8: addresses are case-insensitive\<close>

text \<open>
  C8. Two well-formed addresses \<open>a\<close> and \<open>b\<close> that differ only in letter case have
  the same lower-cased key. When a call for \<open>a\<close> succeeds, the record is under that
  key and no other key is touched; the status request for \<open>b\<close>, as for \<open>a\<close>, returns
  that record, and so does every later valid call for \<open>b\<close> with a timestamp in range
  and a hash that is not consumed. In any registry both handlers give the same registry
  and the same response for \<open>a\<close> as for \<open>b\<close>.
\<close>

theorem C8_addresses_case_insensitive:
  assumes a: "matches_0x_hex 40 a"
    and b: "matches_0x_hex 40 b"
    and differ: "differ_only_in_case a b"
    and first: "complete_task clock s
                  \<lparr>userAddress = a, req_timestamp = ts, req_tx = t\<rparr> = (s1, 200, p1)"
  shows "toLowerCase a = toLowerCase b \<and>
         (\<exists>r. taskCompletions s1 (toLowerCase a) = Some r \<and>
              taskCompletions s1 (toLowerCase b) = Some r \<and>
              data_timestamp p1 = timestamp r \<and> data_tx p1 = tx r) \<and>
         (\<forall>k. k \<noteq> toLowerCase a \<longrightarrow> taskCompletions s1 k = taskCompletions s k) \<and>
         task_status s1 a = (s1, 200, p1) \<and>
         task_status s1 b = (s1, 200, p1) \<and>
         (validateTaskCompletion \<lparr>userAddress = b, req_timestamp = ts2, req_tx = t2\<rparr> = [] \<and>
          isValidTimestamp clock2 ts2 \<and> tx_unused s1 t2 \<longrightarrow>
          complete_task clock2 s1 \<lparr>userAddress = b, req_timestamp = ts2, req_tx = t2\<rparr> =
            (s1, 200, p1)) \<and>
         task_status s' a = task_status s' b \<and>
         complete_task clock' s' \<lparr>userAddress = a, req_timestamp = ts', req_tx = t'\<rparr> =
           complete_task clock' s' \<lparr>userAddress = b, req_timestamp = ts', req_tx = t'\<rparr>"
proof -
  let ?a = "\<lparr>userAddress = a, req_timestamp = ts, req_tx = t\<rparr>"
  have key: "toLowerCase a = toLowerCase b"
    using differ by (rule differ_only_in_case_lower)
  from complete_task_success_record[OF first] obtain r where
    r: "taskCompletions s1 (toLowerCase a) = Some r"
    and p1: "p1 = createSuccessResponse (timestamp r) (Some (tx r))"
    by auto
  have fields: "data_timestamp p1 = timestamp r \<and> data_tx p1 = tx r"
    using p1 by (simp add: createSuccessResponse_def)
  have others: "taskCompletions s1 k = taskCompletions s k" if "k \<noteq> toLowerCase a" for k
    using complete_task_other_keys[of k ?a clock s] that first by simp
  have status_a: "task_status s1 a = (s1, 200, p1)"
    using task_status_existing[of a s1 r] a r p1 by (simp add: validateAddressParam_def)
  have status_b: "task_status s1 b = (s1, 200, p1)"
    using task_status_existing[of b s1 r] b r p1 key by (simp add: validateAddressParam_def)
  have again: "complete_task clock2 s1 \<lparr>userAddress = b, req_timestamp = ts2, req_tx = t2\<rparr> =
            (s1, 200, p1)"
    if "validateTaskCompletion \<lparr>userAddress = b, req_timestamp = ts2, req_tx = t2\<rparr> = []"
      "isValidTimestamp clock2 ts2" "tx_unused s1 t2"
    using complete_task_existing[of "\<lparr>userAddress = b, req_timestamp = ts2, req_tx = t2\<rparr>"
        clock2 s1 r] that r p1 key by simp
  have status: "task_status s' a = task_status s' b"
    using a b key by (simp add: task_status_def validateAddressParam_def)
  have "validateTaskCompletion \<lparr>userAddress = a, req_timestamp = ts', req_tx = t'\<rparr> =
        validateTaskCompletion \<lparr>userAddress = b, req_timestamp = ts', req_tx = t'\<rparr>"
    using a b by (simp add: validateTaskCompletion_def)
  then have calls:
    "complete_task clock' s' \<lparr>userAddress = a, req_timestamp = ts', req_tx = t'\<rparr> =
     complete_task clock' s' \<lparr>userAddress = b, req_timestamp = ts', req_tx = t'\<rparr>"
    using key by (intro complete_task_depends) simp_all
  from r key have rb: "taskCompletions s1 (toLowerCase b) = Some r" by simp
  show ?thesis
    using key r rb fields others status_a status_b again status calls by blast
qed

text \<open>
  The theorem at the mixed-case address A and its lower-cased form: A registers in mixed
  case, and the status request and a second call in lower case return its record.
\<close>

theorem C8_addresses_case_insensitive_witness:
  "addrA \<noteq> addrA_lower \<and>
   complete_task 1715419000000 init
     \<lparr>userAddress = addrA, req_timestamp = 1715418615, req_tx = Some hashH1\<rparr> =
   (\<lparr>taskCompletions = [addrA_lower \<mapsto>
        \<lparr>timestamp = 1715418615, tx = hashH1, completedAt = 1715419000000\<rparr>],
      usedTransactionHashes = {hashH1}\<rparr>,
    200, createSuccessResponse 1715418615 (Some hashH1)) \<and>
   task_status
     \<lparr>taskCompletions = [addrA_lower \<mapsto>
        \<lparr>timestamp = 1715418615, tx = hashH1, completedAt = 1715419000000\<rparr>],
      usedTransactionHashes = {hashH1}\<rparr> addrA_lower =
   (\<lparr>taskCompletions = [addrA_lower \<mapsto>
        \<lparr>timestamp = 1715418615, tx = hashH1, completedAt = 1715419000000\<rparr>],
      usedTransactionHashes = {hashH1}\<rparr>,
    200, createSuccessResponse 1715418615 (Some hashH1)) \<and>
   complete_task 1715419060000
     \<lparr>taskCompletions = [addrA_lower \<mapsto>
        \<lparr>timestamp = 1715418615, tx = hashH1, completedAt = 1715419000000\<rparr>],
      usedTransactionHashes = {hashH1}\<rparr>
     \<lparr>userAddress = addrA_lower, req_timestamp = 1715418999, req_tx = Some hashH2\<rparr> =
   (\<lparr>taskCompletions = [addrA_lower \<mapsto>
        \<lparr>timestamp = 1715418615, tx = hashH1, completedAt = 1715419000000\<rparr>],
      usedTransactionHashes = {hashH1}\<rparr>,
    200, createSuccessResponse 1715418615 (Some hashH1))"
proof -
  let ?s = "\<lparr>taskCompletions = [addrA_lower \<mapsto>
        \<lparr>timestamp = 1715418615, tx = hashH1, completedAt = 1715419000000\<rparr>],
      usedTransactionHashes = {hashH1}\<rparr>"
  let ?b = "\<lparr>userAddress = addrA_lower, req_timestamp = 1715418999, req_tx = Some hashH2\<rparr>"
  note c = C8_addresses_case_insensitive[OF matches_addrA matches_addrA_lower differ_addrA first_A_H1,
      where ?ts2.0 = 1715418999 and ?t2.0 = "Some hashH2" and ?clock2.0 = 1715419060000]
  have valid: "validateTaskCompletion ?b = []"
    by (simp add: validateTaskCompletion_def sample_matches)
  have inrange: "isValidTimestamp 1715419060000 1715418999"
    by (simp add: isValidTimestamp_def)
  have unused: "tx_unused ?s (Some hashH2)"
    by simp
  from c have status: "task_status ?s addrA_lower =
      (?s, 200, createSuccessResponse 1715418615 (Some hashH1))"
    by blast
  from c valid inrange unused have again: "complete_task 1715419060000 ?s ?b =
      (?s, 200, createSuccessResponse 1715418615 (Some hashH1))"
    by blast
  have "addrA \<noteq> addrA_lower"
    by simp
  with first_A_H1 status again show ?thesis
    by blast
qed

subsection \<open>C9: the no-op path consumes nothing\<close>

text \<open>
  C9. A valid call with a timestamp in range and a hash that is not consumed, for an
  address that has a record, returns the registry as it is: the hash is not added to the
  consumed set. A valid later call of any address with that hash and a timestamp in range
  is answered 200, and for an address without a record it creates the record with that
  hash and consumes it.
\<close>

theorem C9_noop_does_not_consume_hash:
  assumes existing: "taskCompletions s (toLowerCase a) = Some r"
    and valid: "validateTaskCompletion
                  \<lparr>userAddress = a, req_timestamp = ts, req_tx = Some h\<rparr> = []"
    and inrange: "isValidTimestamp clock ts"
    and unused: "h \<notin> usedTransactionHashes s"
    and valid': "validateTaskCompletion
                   \<lparr>userAddress = b, req_timestamp = ts', req_tx = Some h\<rparr> = []"
    and inrange': "isValidTimestamp clock' ts'"
  shows "complete_task clock s \<lparr>userAddress = a, req_timestamp = ts, req_tx = Some h\<rparr> =
           (s, 200, createSuccessResponse (timestamp r) (Some (tx r))) \<and>
         h \<notin> usedTransactionHashes
           (fst (complete_task clock s
              \<lparr>userAddress = a, req_timestamp = ts, req_tx = Some h\<rparr>)) \<and>
         fst (snd (complete_task clock'
           (fst (complete_task clock s
              \<lparr>userAddress = a, req_timestamp = ts, req_tx = Some h\<rparr>))
           \<lparr>userAddress = b, req_timestamp = ts', req_tx = Some h\<rparr>)) = 200 \<and>
         (taskCompletions s (toLowerCase b) = None \<longrightarrow>
          complete_task clock'
            (fst (complete_task clock s
               \<lparr>userAddress = a, req_timestamp = ts, req_tx = Some h\<rparr>))
            \<lparr>userAddress = b, req_timestamp = ts', req_tx = Some h\<rparr> =
          (s\<lparr>taskCompletions := (taskCompletions s)(toLowerCase b \<mapsto>
                \<lparr>timestamp = ts', tx = h, completedAt = clock'\<rparr>),
              usedTransactionHashes := insert h (usedTransactionHashes s)\<rparr>,
           200, \<lparr>status = 1, error = None, data_timestamp = ts', data_tx = h\<rparr>))"
proof -
  let ?a = "\<lparr>userAddress = a, req_timestamp = ts, req_tx = Some h\<rparr>"
  let ?b = "\<lparr>userAddress = b, req_timestamp = ts', req_tx = Some h\<rparr>"
  have noop: "complete_task clock s ?a =
                (s, 200, createSuccessResponse (timestamp r) (Some (tx r)))"
    by (rule complete_task_existing) (simp_all add: valid inrange unused existing)
  have h: "h \<noteq> []"
    using valid_tx_nonempty[OF valid, of h] by simp
  have later: "fst (snd (complete_task clock' s ?b)) = 200"
  proof (cases "taskCompletions s (toLowerCase b)")
    case None
    then show ?thesis
      using complete_task_new[of ?b clock' s] valid' inrange' unused by simp
  next
    case (Some r')
    then show ?thesis
      using complete_task_existing[of ?b clock' s r'] valid' inrange' unused by simp
  qed
  have created: "complete_task clock' s ?b =
          (s\<lparr>taskCompletions := (taskCompletions s)(toLowerCase b \<mapsto>
                \<lparr>timestamp = ts', tx = h, completedAt = clock'\<rparr>),
              usedTransactionHashes := insert h (usedTransactionHashes s)\<rparr>,
           200, \<lparr>status = 1, error = None, data_timestamp = ts', data_tx = h\<rparr>)"
    if "taskCompletions s (toLowerCase b) = None"
    using complete_task_new[of ?b clock' s] valid' inrange' unused that h
    by (simp add: createSuccessResponse_def)
  from noop later created unused show ?thesis by simp
qed

text \<open>
  The theorem at the second call of A with H2, followed by the first call of B with H2.
\<close>

theorem C9_noop_does_not_consume_hash_witness:
  "complete_task 1715419000000
     \<lparr>taskCompletions = [addrA_lower \<mapsto>
        \<lparr>timestamp = 1715418615, tx = hashH1, completedAt = 1715419000000\<rparr>],
      usedTransactionHashes = {hashH1}\<rparr>
     \<lparr>userAddress = addrA, req_timestamp = 1715418999, req_tx = Some hashH2\<rparr> =
   (\<lparr>taskCompletions = [addrA_lower \<mapsto>
        \<lparr>timestamp = 1715418615, tx = hashH1, completedAt = 1715419000000\<rparr>],
      usedTransactionHashes = {hashH1}\<rparr>, 200,
    createSuccessResponse 1715418615 (Some hashH1)) \<and>
   complete_task 1715419060000
     \<lparr>taskCompletions = [addrA_lower \<mapsto>
        \<lparr>timestamp = 1715418615, tx = hashH1, completedAt = 1715419000000\<rparr>],
      usedTransactionHashes = {hashH1}\<rparr>
     \<lparr>userAddress = addrB, req_timestamp = 1715418700, req_tx = Some hashH2\<rparr> =
   (\<lparr>taskCompletions = [addrA_lower \<mapsto>
        \<lparr>timestamp = 1715418615, tx = hashH1, completedAt = 1715419000000\<rparr>,
        addrB_lower \<mapsto>
        \<lparr>timestamp = 1715418700, tx = hashH2, completedAt = 1715419060000\<rparr>],
      usedTransactionHashes = {hashH2, hashH1}\<rparr>, 200,
    \<lparr>status = 1, error = None, data_timestamp = 1715418700, data_tx = hashH2\<rparr>)"
proof -
  let ?s = "\<lparr>taskCompletions = [addrA_lower \<mapsto>
        \<lparr>timestamp = 1715418615, tx = hashH1, completedAt = 1715419000000\<rparr>],
      usedTransactionHashes = {hashH1}\<rparr>"
  note c = C9_noop_does_not_consume_hash[where a = addrA and b = addrB and h = hashH2
      and ts = 1715418999 and ts' = 1715418700 and clock = 1715419000000
      and clock' = 1715419060000 and s = ?s
      and r = "\<lparr>timestamp = 1715418615, tx = hashH1, completedAt = 1715419000000\<rparr>"]
  have existing: "taskCompletions ?s (toLowerCase addrA) =
      Some \<lparr>timestamp = 1715418615, tx = hashH1, completedAt = 1715419000000\<rparr>"
    by (simp add: lower_addrA)
  have unused: "hashH2 \<notin> usedTransactionHashes ?s"
    by simp
  have absent: "taskCompletions ?s (toLowerCase addrB) = None"
    by (simp add: lower_addrB)
  have inrange: "isValidTimestamp 1715419000000 1715418999"
    "isValidTimestamp 1715419060000 1715418700"
    by (simp_all add: isValidTimestamp_def)
  have valid: "validateTaskCompletion
      \<lparr>userAddress = addrA, req_timestamp = 1715418999, req_tx = Some hashH2\<rparr> = []"
    "validateTaskCompletion
      \<lparr>userAddress = addrB, req_timestamp = 1715418700, req_tx = Some hashH2\<rparr> = []"
    by (simp_all add: valid_samples)
  note c' = c[OF existing valid(1) inrange(1) unused valid(2) inrange(2)]
  from c' have noop: "complete_task 1715419000000 ?s
      \<lparr>userAddress = addrA, req_timestamp = 1715418999, req_tx = Some hashH2\<rparr> =
      (?s, 200, createSuccessResponse 1715418615 (Some hashH1))"
    by simp
  from c' absent have "complete_task 1715419060000
      (fst (complete_task 1715419000000 ?s
         \<lparr>userAddress = addrA, req_timestamp = 1715418999, req_tx = Some hashH2\<rparr>))
      \<lparr>userAddress = addrB, req_timestamp = 1715418700, req_tx = Some hashH2\<rparr> =
      (?s\<lparr>taskCompletions := (taskCompletions ?s)(toLowerCase addrB \<mapsto>
            \<lparr>timestamp = 1715418700, tx = hashH2, completedAt = 1715419060000\<rparr>),
          usedTransactionHashes := insert hashH2 (usedTransactionHashes ?s)\<rparr>,
       200, \<lparr>status = 1, error = None, data_timestamp = 1715418700, data_tx = hashH2\<rparr>)"
    by blast
  with noop show ?thesis
    by (simp add: lower_addrB)
qed

subsection \<open>C10: hashes are compared as they are written\<close>

text \<open>
  C10. H1 in lower case and H1 in upper case differ only in letter case. A registers with
  the first and B with the second: both calls are answered 200, and the consumed set
  holds the two strings.
\<close>

theorem C10_hash_case_variants_both_accepted:
  "differ_only_in_case hashH1 hashH1_upper \<and> hashH1 \<noteq> hashH1_upper \<and>
   toLowerCase addrA \<noteq> toLowerCase addrB \<and>
   complete_task 1715419000000 init
     \<lparr>userAddress = addrA, req_timestamp = 1715418615, req_tx = Some hashH1\<rparr> =
   (\<lparr>taskCompletions = [addrA_lower \<mapsto>
        \<lparr>timestamp = 1715418615, tx = hashH1, completedAt = 1715419000000\<rparr>],
      usedTransactionHashes = {hashH1}\<rparr>,
    200, createSuccessResponse 1715418615 (Some hashH1)) \<and>
   complete_task 1715419060000
     \<lparr>taskCompletions = [addrA_lower \<mapsto>
        \<lparr>timestamp = 1715418615, tx = hashH1, completedAt = 1715419000000\<rparr>],
      usedTransactionHashes = {hashH1}\<rparr>
     \<lparr>userAddress = addrB, req_timestamp = 1715418700, req_tx = Some hashH1_upper\<rparr> =
   (\<lparr>taskCompletions = [addrA_lower \<mapsto>
        \<lparr>timestamp = 1715418615, tx = hashH1, completedAt = 1715419000000\<rparr>,
        addrB_lower \<mapsto>
        \<lparr>timestamp = 1715418700, tx = hashH1_upper, completedAt = 1715419060000\<rparr>],
      usedTransactionHashes = {hashH1_upper, hashH1}\<rparr>,
    200, createSuccessResponse 1715418700 (Some hashH1_upper))"
proof -
  have second: "complete_task 1715419060000
     \<lparr>taskCompletions = [addrA_lower \<mapsto>
        \<lparr>timestamp = 1715418615, tx = hashH1, completedAt = 1715419000000\<rparr>],
      usedTransactionHashes = {hashH1}\<rparr>
     \<lparr>userAddress = addrB, req_timestamp = 1715418700, req_tx = Some hashH1_upper\<rparr> =
   (\<lparr>taskCompletions = [addrA_lower \<mapsto>
        \<lparr>timestamp = 1715418615, tx = hashH1, completedAt = 1715419000000\<rparr>,
        addrB_lower \<mapsto>
        \<lparr>timestamp = 1715418700, tx = hashH1_upper, completedAt = 1715419060000\<rparr>],
      usedTransactionHashes = {hashH1_upper, hashH1}\<rparr>,
    200, createSuccessResponse 1715418700 (Some hashH1_upper))"
    using complete_task_new[where b =
        "\<lparr>userAddress = addrB, req_timestamp = 1715418700, req_tx = Some hashH1_upper\<rparr>"
        and clock = 1715419060000 and s =
        "\<lparr>taskCompletions = [addrA_lower \<mapsto>
        \<lparr>timestamp = 1715418615, tx = hashH1, completedAt = 1715419000000\<rparr>],
      usedTransactionHashes = {hashH1}\<rparr>"]
    by (simp add: valid_samples isValidTimestamp_def lower_addrB)
  show ?thesis
    using second first_A_H1 differ_hashH1 by (simp add: lower_addrA lower_addrB)
qed

end
